theory Spec2Isabelle
  imports Main "HOL-Library.Word"
begin

unbundle bit_operations_syntax

section \<open>Machine types\<close>

text \<open>
  The fixed-width types of \<open>stdint.h\<close> are words of that width. \<open>size_t\<close> and
  addresses are taken as 32 bits wide, as on the 32-bit x86 target of a kernel that
  writes to the VGA text buffer at \<open>0xB8000\<close>; the width enters the results below only
  through the wrap-around of \<open>size_t\<close> arithmetic. A C \<open>char\<close> is a \<^typ>\<open>char\<close>,
  and the byte read as an \<open>unsigned char\<close> is \<^term>\<open>of_char c\<close>.
\<close>

type_synonym uint8_t = "8 word"
type_synonym uint16_t = "16 word"
type_synonym uint32_t = "32 word"
type_synonym size_t = "32 word"

definition NUL :: char where
  "NUL = CHR 0x00"

section \<open>The hexadecimal encoder (\<open>decToHexStr\<close>)\<close>

definition hexDigits :: string where
  "hexDigits = ''0123456789ABCDEF''"

text \<open>
  The first loop of \<open>decToHexStr\<close>:
  \<^verbatim>\<open>while (num > 0 && i >= 0) { str[i--] = hexDigits[num % 16]; num /= 16; }\<close>
  The state is the triple of \<open>num\<close>, the C \<open>int\<close> \<open>i\<close> and the buffer.
\<close>

function digit_loop :: "uint32_t \<Rightarrow> int \<Rightarrow> string \<Rightarrow> uint32_t \<times> int \<times> string" where
  "digit_loop num i str =
     (if num > 0 \<and> i \<ge> 0
      then digit_loop (num div 16) (i - 1) (str[nat i := hexDigits ! unat (num mod 16)])
      else (num, i, str))"
  by pat_completeness auto
termination
  by (relation "measure (\<lambda>(num, i, str). nat (i + 1))") auto

text \<open>The second loop: \<^verbatim>\<open>while (i >= 0) { str[i--] = '0'; }\<close>\<close>

function pad_loop :: "int \<Rightarrow> string \<Rightarrow> int \<times> string" where
  "pad_loop i str =
     (if i \<ge> 0 then pad_loop (i - 1) (str[nat i := CHR ''0'']) else (i, str))"
  by pat_completeness auto
termination
  by (relation "measure (\<lambda>(i, str). nat (i + 1))") auto

text \<open>
  \<open>decToHexStr(num, str)\<close> writes into the caller's buffer \<open>str\<close>, declared
  \<open>char str[11]\<close>; the model takes the buffer's old content and returns the new one.
  Every write is at an index from 0 to 8.
\<close>

definition decToHexStr :: "uint32_t \<Rightarrow> string \<Rightarrow> string" where
  "decToHexStr num str =
     (let i = (7 :: int);
          str = str[8 := NUL];
          (i, str) = (if num = 0 then (i - 1, str[nat i := CHR ''0'']) else (i, str));
          (num, i, str) = digit_loop num i str;
          (i, str) = pad_loop i str;
          str = str[0 := CHR ''0''];
          str = str[1 := CHR ''x'']
      in str)"

text \<open>
  The C string held in a buffer: the characters before the first terminator. This is
  what a reader of the buffer such as \<open>write\<close> sees.
\<close>

definition c_str :: "string \<Rightarrow> string" where
  "c_str buf = takeWhile (\<lambda>c. c \<noteq> NUL) buf"

text \<open>
  \<open>write_hex(hex)\<close> passes the buffer to \<open>write\<close>, which reads it as a C string;
  \<open>encode\<close> names that string. The local buffer \<open>char str[11]\<close> is not initialised,
  so its old content \<open>junk\<close> is a parameter.
\<close>

definition encode :: "uint32_t \<Rightarrow> string \<Rightarrow> string" where
  "encode num junk = c_str (decToHexStr num junk)"

subsection \<open>What the specification asks of the encoder\<close>

text \<open>
  The zero-padded \<open>k\<close>-digit hexadecimal representation of a number, most significant
  digit first, and the number that a digit string denotes. Both follow the
  specification's words and are independent of the loops above.
\<close>

fun hex_repr :: "nat \<Rightarrow> nat \<Rightarrow> string" where
  "hex_repr 0 n = []"
| "hex_repr (Suc k) n = hex_repr k (n div 16) @ [hexDigits ! (n mod 16)]"

definition hex_digit_value :: "char \<Rightarrow> nat" where
  "hex_digit_value c =
     (let n = of_char c in if 48 \<le> n \<and> n \<le> 57 then n - 48 else n - 55)"

definition hex_value :: "string \<Rightarrow> nat" where
  "hex_value ds = foldl (\<lambda>a c. 16 * a + hex_digit_value c) 0 ds"

definition is_hex_digit :: "char \<Rightarrow> bool" where
  "is_hex_digit c = (c \<in> set hexDigits)"

section \<open>VGA attributes and cells\<close>

text \<open>
  \<open>enum VGA_COLOR\<close> has no negative enumerator; its values are machine integers, and
  the function parameters of that type accept any of them.
\<close>

type_synonym VGA_COLOR = "32 word"

definition VGA_COLOR_BLACK :: VGA_COLOR where "VGA_COLOR_BLACK = 0"
definition VGA_COLOR_RED :: VGA_COLOR where "VGA_COLOR_RED = 4"
definition VGA_COLOR_YELLOW :: VGA_COLOR where "VGA_COLOR_YELLOW = 14"
definition VGA_COLOR_WHITE :: VGA_COLOR where "VGA_COLOR_WHITE = 15"

definition VGA_WIDTH :: size_t where "VGA_WIDTH = 80"
definition VGA_HEIGHT :: size_t where "VGA_HEIGHT = 25"

text \<open>\<^verbatim>\<open>return fg | bg << 4;\<close> with the result converted to \<open>uint8_t\<close>.\<close>

definition vga_entry_color :: "VGA_COLOR \<Rightarrow> VGA_COLOR \<Rightarrow> uint8_t" where
  "vga_entry_color fg bg = ucast (fg OR push_bit 4 bg)"

text \<open>\<^verbatim>\<open>return (uint16_t) uc | (uint16_t) color << 8;\<close>\<close>

definition vga_entry :: "uint8_t \<Rightarrow> uint8_t \<Rightarrow> uint16_t" where
  "vga_entry uc color = ucast uc OR push_bit 8 (ucast color)"

section \<open>The terminal\<close>

text \<open>
  The globals \<open>terminal_buffer\<close>, \<open>terminal_row\<close> and \<open>terminal_col\<close>, and the memory
  that the pointer \<open>terminal_buffer\<close> is used to write: \<open>mem\<close> gives the 16-bit unit
  stored at an address. \<open>terminal_buffer[index]\<close> is the unit at
  \<open>terminal_buffer + 2 * index\<close>.
\<close>

type_synonym addr = "32 word"

record terminal =
  terminal_buffer :: addr
  mem :: "addr \<Rightarrow> uint16_t"
  terminal_row :: size_t
  terminal_col :: size_t

definition elem_addr :: "addr \<Rightarrow> size_t \<Rightarrow> addr" where
  "elem_addr p index = p + 2 * index"

text \<open>
  The state at boot: the three globals are statically initialised, the pointer to null
  and the cursor to \<open>(0, 0)\<close>.
\<close>

definition boot :: "(addr \<Rightarrow> uint16_t) \<Rightarrow> terminal" where
  "boot m = \<lparr>terminal_buffer = 0, mem = m, terminal_row = 0, terminal_col = 0\<rparr>"

text \<open>
  \<open>strlen\<close>: \<^verbatim>\<open>while (str[len]) len++;\<close> A string argument is the list of the
  bytes at the pointer; the byte after the end of the list is the terminator, and a
  terminator inside the list ends the string there. The counters \<open>len\<close> and \<open>i\<close> are
  bounded by the length of a string in memory, so they are natural numbers.
\<close>

function strlen_loop :: "string \<Rightarrow> nat \<Rightarrow> nat" where
  "strlen_loop str len =
     (if len < length str \<and> str ! len \<noteq> NUL then strlen_loop str (len + 1) else len)"
  by pat_completeness auto
termination
  by (relation "measure (\<lambda>(str, len). length str - len)") auto

definition strlen :: "string \<Rightarrow> nat" where
  "strlen str = strlen_loop str 0"

text \<open>
  \<open>initTerminal\<close>: the inner loop over \<open>x\<close> for one \<open>y\<close>, the outer loop over \<open>y\<close>, and
  the function itself, which first sets the pointer.
\<close>

function init_cols :: "size_t \<Rightarrow> size_t \<Rightarrow> terminal \<Rightarrow> terminal" where
  "init_cols y x t =
     (if x < VGA_WIDTH
      then init_cols y (x + 1)
             (t\<lparr>mem := (mem t)
                  (elem_addr (terminal_buffer t) (y * VGA_WIDTH + x) :=
                     vga_entry (of_char (CHR '' ''))
                       (vga_entry_color VGA_COLOR_WHITE VGA_COLOR_BLACK))\<rparr>)
      else t)"
  by pat_completeness auto
termination
proof (relation "measure (\<lambda>(y, x, t). unat VGA_WIDTH - unat x)")
  show "wf (measure (\<lambda>(y, x, t). unat VGA_WIDTH - unat x))" by simp
next
  fix y x :: size_t and t :: terminal
  assume "x < VGA_WIDTH"
  then have "unat x < 80" by (simp add: VGA_WIDTH_def word_less_nat_alt)
  then have "unat (x + 1) = unat x + 1" by (simp add: unat_word_ariths)
  with \<open>unat x < 80\<close>
  show "((y, x + 1, t\<lparr>mem := (mem t)
            (elem_addr (terminal_buffer t) (y * VGA_WIDTH + x) :=
               vga_entry (of_char (CHR '' ''))
                 (vga_entry_color VGA_COLOR_WHITE VGA_COLOR_BLACK))\<rparr>), (y, x, t))
        \<in> measure (\<lambda>(y, x, t). unat VGA_WIDTH - unat x)"
    by (simp add: VGA_WIDTH_def)
qed

function init_rows :: "size_t \<Rightarrow> terminal \<Rightarrow> terminal" where
  "init_rows y t = (if y < VGA_HEIGHT then init_rows (y + 1) (init_cols y 0 t) else t)"
  by pat_completeness auto
termination
proof (relation "measure (\<lambda>(y, t). unat VGA_HEIGHT - unat y)")
  show "wf (measure (\<lambda>(y, t). unat VGA_HEIGHT - unat y))" by simp
next
  fix y :: size_t and t :: terminal
  assume "y < VGA_HEIGHT"
  then have "unat y < 25" by (simp add: VGA_HEIGHT_def word_less_nat_alt)
  then have "unat (y + 1) = unat y + 1" by (simp add: unat_word_ariths)
  with \<open>unat y < 25\<close>
  show "((y + 1, init_cols y 0 t), (y, t)) \<in> measure (\<lambda>(y, t). unat VGA_HEIGHT - unat y)"
    by (simp add: VGA_HEIGHT_def)
qed

definition initTerminal :: "terminal \<Rightarrow> terminal" where
  "initTerminal t = init_rows 0 (t\<lparr>terminal_buffer := 0xB8000\<rparr>)"

text \<open>
  \<open>terminalPut\<close>: the \<open>for\<close> loop over \<open>i < len\<close>, where \<open>continue\<close> goes on with
  \<open>i + 1\<close>.
\<close>

function terminalPut_loop :: "string \<Rightarrow> uint8_t \<Rightarrow> nat \<Rightarrow> nat \<Rightarrow> terminal \<Rightarrow> terminal" where
  "terminalPut_loop str color len i t =
     (if i < len
      then if str ! i = CHR ''\<newline>''
           then terminalPut_loop str color len (i + 1)
                  (t\<lparr>terminal_row := terminal_row t + 1, terminal_col := 0\<rparr>)
           else terminalPut_loop str color len (i + 1)
                  (t\<lparr>mem := (mem t)
                       (elem_addr (terminal_buffer t)
                          (terminal_col t + terminal_row t * VGA_WIDTH) :=
                          vga_entry (of_char (str ! i)) color),
                     terminal_col := terminal_col t + 1\<rparr>)
      else t)"
  by pat_completeness auto
termination
  by (relation "measure (\<lambda>(str, color, len, i, t). len - i)") auto

definition terminalPut :: "string \<Rightarrow> uint8_t \<Rightarrow> terminal \<Rightarrow> terminal" where
  "terminalPut str color t = terminalPut_loop str color (strlen str) 0 t"

text \<open>\<open>write\<close> of the source; the name is a keyword of Isabelle.\<close>

definition write_str :: "string \<Rightarrow> terminal \<Rightarrow> terminal" where
  "write_str str t = terminalPut str (vga_entry_color VGA_COLOR_WHITE VGA_COLOR_BLACK) t"

definition write_hex :: "uint32_t \<Rightarrow> string \<Rightarrow> terminal \<Rightarrow> terminal" where
  "write_hex hex junk t = write_str (decToHexStr hex junk) t"

definition kerr :: "string \<Rightarrow> terminal \<Rightarrow> terminal" where
  "kerr err t = terminalPut err (vga_entry_color VGA_COLOR_RED VGA_COLOR_BLACK) t"

definition kwarn :: "string \<Rightarrow> terminal \<Rightarrow> terminal" where
  "kwarn warn t = terminalPut warn (vga_entry_color VGA_COLOR_YELLOW VGA_COLOR_BLACK) t"

section \<open>Auxiliary definitions\<close>

text \<open>The two loops of \<open>decToHexStr\<close> run one after the other, as a function of the buffer.\<close>

definition fill :: "uint32_t \<Rightarrow> int \<Rightarrow> string \<Rightarrow> string" where
  "fill num i str = (case digit_loop num i str of (num', i', str') \<Rightarrow> snd (pad_loop i' str'))"

text \<open>The body of the loop of \<open>terminalPut\<close>, for one character.\<close>

definition put_char :: "char \<Rightarrow> uint8_t \<Rightarrow> terminal \<Rightarrow> terminal" where
  "put_char c color t =
     (if c = CHR ''\<newline>''
      then t\<lparr>terminal_row := terminal_row t + 1, terminal_col := 0\<rparr>
      else t\<lparr>mem := (mem t)
                (elem_addr (terminal_buffer t) (terminal_col t + terminal_row t * VGA_WIDTH) :=
                   vga_entry (of_char c) color),
              terminal_col := terminal_col t + 1\<rparr>)"

text \<open>The unit that \<open>initTerminal\<close> writes to every cell.\<close>

definition blank :: uint16_t where
  "blank = vga_entry (of_char (CHR '' '')) (vga_entry_color VGA_COLOR_WHITE VGA_COLOR_BLACK)"

declare digit_loop.simps [simp del] pad_loop.simps [simp del]
  strlen_loop.simps [simp del] terminalPut_loop.simps [simp del]
  init_cols.simps [simp del] init_rows.simps [simp del]

section \<open>Properties of the encoder\<close>

lemma length_hex_repr [simp]: "length (hex_repr k n) = k"
  by (induction k arbitrary: n) simp_all

lemma hex_repr_nth:
  "j < k \<Longrightarrow> hex_repr k n ! j = hexDigits ! (n div 16 ^ (k - 1 - j) mod 16)"
proof (induction k arbitrary: n j)
  case 0
  then show ?case by simp
next
  case (Suc k)
  show ?case
  proof (cases "j = k")
    case True
    then show ?thesis by (simp add: nth_append)
  next
    case False
    with Suc.prems have jk: "j < k" by simp
    then have "k - 1 - j + 1 = k - j" by simp
    then have "n div 16 div 16 ^ (k - 1 - j) = n div 16 ^ (k - j)"
      by (metis div_mult2_eq power_add power_one_right mult.commute)
    with jk Suc.IH [of j "n div 16"] show ?thesis
      by (simp add: nth_append)
  qed
qed


lemma pad_loop_length [simp]: "length (snd (pad_loop i str)) = length str"
proof (induction i str rule: pad_loop.induct)
  case (1 i str)
  then show ?case by (subst pad_loop.simps) simp
qed

lemma pad_loop_nth:
  "nat (i + 1) \<le> length str \<Longrightarrow> j < length str \<Longrightarrow>
   snd (pad_loop i str) ! j = (if int j \<le> i then CHR ''0'' else str ! j)"
proof (induction i str rule: pad_loop.induct)
  case (1 i str)
  show ?case
  proof (cases "i \<ge> 0")
    case True
    with "1.prems" have "nat (i - 1 + 1) \<le> length (str[nat i := CHR ''0''])" by simp
    from "1.IH" [OF True this] "1.prems" True
    have "snd (pad_loop (i - 1) (str[nat i := CHR ''0''])) ! j =
          (if int j \<le> i - 1 then CHR ''0'' else str[nat i := CHR ''0''] ! j)"
      by simp
    with True "1.prems" show ?thesis
      by (subst pad_loop.simps) (auto simp: nth_list_update)
  next
    case False
    then show ?thesis by (subst pad_loop.simps) simp
  qed
qed

lemma fill_rec:
  "fill num i str =
     (if num > 0 \<and> i \<ge> 0 then fill (num div 16) (i - 1) (str[nat i := hexDigits ! unat (num mod 16)])
      else snd (pad_loop i str))"
  unfolding fill_def by (subst digit_loop.simps) simp

lemma hexDigits_0: "hexDigits ! 0 = CHR ''0''"
  by (simp add: hexDigits_def)

lemma fill_length [simp]: "length (fill num i str) = length str"
proof (induction num i str rule: digit_loop.induct)
  case (1 num i str)
  then show ?case by (subst fill_rec) simp
qed

lemma fill_nth:
  "nat (i + 1) \<le> length str \<Longrightarrow> j < length str \<Longrightarrow>
   fill num i str ! j =
     (if int j \<le> i then hexDigits ! (unat num div 16 ^ nat (i - int j) mod 16) else str ! j)"
proof (induction num i str rule: digit_loop.induct)
  case (1 num i str)
  show ?case
  proof (cases "num > 0 \<and> i \<ge> 0")
    case True
    let ?str = "str[nat i := hexDigits ! unat (num mod 16)]"
    from True "1.prems" have len: "nat (i - 1 + 1) \<le> length ?str" and j: "j < length ?str"
      by simp_all
    have step: "fill num i str ! j =
          (if int j \<le> i - 1 then hexDigits ! (unat (num div 16) div 16 ^ nat (i - 1 - int j) mod 16)
           else ?str ! j)"
      using "1.IH" [OF True len j] True by (subst fill_rec) simp
    show ?thesis
    proof (cases "int j \<le> i - 1")
      case le: True
      then have "nat (i - int j) = Suc (nat (i - 1 - int j))" by simp
      then have "unat num div 16 ^ nat (i - int j) = unat num div 16 div 16 ^ nat (i - 1 - int j)"
        by (simp add: div_mult2_eq)
      with step le show ?thesis by (simp add: unat_div)
    next
      case gt: False
      show ?thesis
      proof (cases "int j = i")
        case True
        then have "nat i = j" by simp
        with step gt "1.prems" True show ?thesis by (auto simp: unat_mod)
      next
        case False
        with True have "nat i \<noteq> j" by auto
        with False step gt "1.prems" show ?thesis by (simp add: nth_list_update)
      qed
    qed
  next
    case False
    then have "fill num i str = snd (pad_loop i str)" by (subst fill_rec) auto
    moreover have "int j \<le> i \<Longrightarrow> num = 0"
      using False by (auto simp: word_greater_zero_iff)
    ultimately show ?thesis
      using pad_loop_nth [OF "1.prems"] by (auto simp: hexDigits_0)
  qed
qed

text \<open>The buffer after the two loops, before the prefix is written.\<close>

lemma decToHexStr_eq:
  "decToHexStr num str =
     (if num = 0 then snd (pad_loop 6 (str[8 := NUL, 7 := CHR ''0'']))
      else fill num 7 (str[8 := NUL]))[0 := CHR ''0'', 1 := CHR ''x'']"
proof (cases "num = 0")
  case True
  then show ?thesis
    by (simp add: decToHexStr_def digit_loop.simps [of 0] split: prod.splits)
next
  case False
  then show ?thesis
    by (simp add: decToHexStr_def fill_def split: prod.splits)
qed

lemma digits_before_prefix:
  assumes "length str = 11"
  shows "(if num = 0 then snd (pad_loop 6 (str[8 := NUL, 7 := CHR ''0'']))
      else fill num 7 (str[8 := NUL])) = hex_repr 8 (unat num) @ [NUL, str ! 9, str ! 10]"
    (is "?lhs = ?rhs")
proof (rule nth_equalityI)
  show "length ?lhs = length ?rhs" using assms by simp
next
  fix j assume "j < length ?lhs"
  with assms have j: "j < 11" by (simp split: if_splits)
  have r: "?rhs ! j = (if j < 8 then hexDigits ! (unat num div 16 ^ (7 - j) mod 16)
       else if j = 8 then NUL else str ! j)"
  proof -
    from j consider "j < 8" | "j = 8" | "j = 9" | "j = 10" by linarith
    then show ?thesis
      by cases (simp_all add: nth_append hex_repr_nth)
  qed
  have l: "?lhs ! j = (if j < 8 then hexDigits ! (unat num div 16 ^ (7 - j) mod 16)
       else if j = 8 then NUL else str ! j)"
  proof (cases "num = 0")
    case True
    with assms j show ?thesis
      by (auto simp: pad_loop_nth hexDigits_0 nth_list_update)
  next
    case False
    have "nat (7 - int j) = 7 - j" by simp
    with False assms j show ?thesis
      by (auto simp: fill_nth nth_list_update)
  qed
  from l r show "?lhs ! j = ?rhs ! j" by simp
qed

lemma hex_repr_add:
  "hex_repr (a + b) n = hex_repr a (n div 16 ^ b) @ hex_repr b n"
proof (induction b arbitrary: n)
  case 0
  then show ?case by simp
next
  case (Suc b)
  have "n div 16 div 16 ^ b = n div (16 * 16 ^ b)" by (simp add: div_mult2_eq)
  with Suc [of "n div 16"] show ?case by simp
qed

lemma hex_repr_mod: "hex_repr k (n mod 16 ^ k) = hex_repr k n"
proof (induction k arbitrary: n)
  case 0
  then show ?case by simp
next
  case (Suc k)
  have d: "n mod (16 * 16 ^ k) div 16 = n div 16 mod 16 ^ k"
    by (simp add: mod_mult2_eq)
  have m: "n mod (16 * 16 ^ k) mod 16 = n mod 16"
    by (simp add: mod_mult2_eq)
  from Suc [of "n div 16"] d m show ?case by simp
qed

lemma hex_digit_value_hexDigits_all:
  "\<forall>d<16. hex_digit_value (hexDigits ! d) = d"
proof -
  have "16 = Suc (Suc (Suc (Suc (Suc (Suc (Suc (Suc (Suc (Suc (Suc (Suc (Suc (Suc (Suc (Suc 0)))))))))))))))"
    by simp
  then show ?thesis
    by (simp only: All_less_Suc) (simp add: hex_digit_value_def hexDigits_def)
qed

lemma hex_digit_value_hexDigits:
  "d < 16 \<Longrightarrow> hex_digit_value (hexDigits ! d) = d"
  using hex_digit_value_hexDigits_all by blast

lemma hexDigits_nth_mem: "d < 16 \<Longrightarrow> hexDigits ! d \<in> set hexDigits"
  by (rule nth_mem) (simp add: hexDigits_def)

lemma hex_repr_digits: "set (hex_repr k n) \<subseteq> set hexDigits"
  by (induction k arbitrary: n) (auto simp: hexDigits_nth_mem)

lemma NUL_not_hexDigit: "NUL \<notin> set hexDigits"
  by (simp add: NUL_def hexDigits_def)

lemma hex_value_snoc: "hex_value (ds @ [c]) = 16 * hex_value ds + hex_digit_value c"
  by (simp add: hex_value_def)

lemma hex_value_hex_repr: "hex_value (hex_repr k n) = n mod 16 ^ k"
proof (induction k arbitrary: n)
  case 0
  then show ?case by (simp add: hex_value_def)
next
  case (Suc k)
  have "n mod (16 * 16 ^ k) = 16 * (n div 16 mod 16 ^ k) + n mod 16"
    by (simp add: mod_mult2_eq)
  with Suc [of "n div 16"] show ?case
    by (simp add: hex_value_snoc hex_digit_value_hexDigits)
qed

lemma decToHexStr_buffer:
  assumes "length str = 11"
  shows "decToHexStr num str = ''0x'' @ hex_repr 6 (unat num) @ [NUL, str ! 9, str ! 10]"
proof -
  have "hex_repr (2 + 6) (unat num) = hex_repr 2 (unat num div 16 ^ 6) @ hex_repr 6 (unat num)"
    by (rule hex_repr_add)
  moreover obtain a b where "hex_repr 2 (unat num div 16 ^ 6) = [a, b]"
    by (simp add: numeral_2_eq_2)
  ultimately have "hex_repr 8 (unat num) = [a, b] @ hex_repr 6 (unat num)" by simp
  then show ?thesis
    by (simp add: decToHexStr_eq digits_before_prefix [OF assms])
qed

lemma c_str_decToHexStr:
  assumes "length str = 11"
  shows "c_str (decToHexStr num str) = ''0x'' @ hex_repr 6 (unat num)"
proof -
  have "\<forall>c \<in> set (''0x'' @ hex_repr 6 (unat num)). c \<noteq> NUL"
    using hex_repr_digits [of 6 "unat num"] NUL_not_hexDigit by (auto simp: NUL_def)
  then have "takeWhile (\<lambda>c. c \<noteq> NUL) ((''0x'' @ hex_repr 6 (unat num)) @ [NUL, str ! 9, str ! 10])
      = ''0x'' @ hex_repr 6 (unat num)"
    by (subst takeWhile_append2) auto
  then show ?thesis by (simp add: c_str_def decToHexStr_buffer [OF assms])
qed

lemma encode_eq:
  "length junk = 11 \<Longrightarrow> encode num junk = ''0x'' @ hex_repr 6 (unat num)"
  by (simp add: encode_def c_str_decToHexStr)

lemma hex_repr_numeral:
  "hex_repr (numeral k) n = hex_repr (pred_numeral k) (n div 16) @ [hexDigits ! (n mod 16)]"
  by (simp only: numeral_eq_Suc [of k] hex_repr.simps)

lemma hex_repr_0: "hex_repr 6 0 = ''000000''"
  by (simp add: hex_repr_numeral hexDigits_def)

lemma hex_repr_FF: "hex_repr 6 255 = ''0000FF''"
  by (simp add: hex_repr_numeral hexDigits_def)

lemma hex_repr_12345678: "hex_repr 6 (unat (0x12345678 :: uint32_t)) = ''345678''"
  by (simp add: hex_repr_numeral hexDigits_def)

text \<open>
  Claim C1. For a value of at least \<open>0x01000000\<close> the string that \<open>decToHexStr\<close>
  produces is the 8-digit representation of the value with its two most significant
  digits overwritten by \<open>0\<close> and \<open>x\<close>: the digits that remain are those of the low six
  nibbles, they denote the value modulo \<open>16 ^ 6\<close>, which is less than the value, and
  \<open>0x12345678\<close> is rendered as \<open>0x345678\<close>.
\<close>

theorem encode_discards_high_digits:
  assumes "length junk = 11" and "0x01000000 \<le> num"
  shows "encode num junk = (hex_repr 8 (unat num))[0 := CHR ''0'', 1 := CHR ''x'']
       \<and> encode num junk = ''0x'' @ hex_repr 6 (unat num mod 16 ^ 6)
       \<and> hex_value (drop 2 (encode num junk)) = unat num mod 16 ^ 6
       \<and> hex_value (drop 2 (encode num junk)) < unat num
       \<and> encode 0x12345678 junk = ''0x345678''"
proof -
  have e: "encode num junk = ''0x'' @ hex_repr 6 (unat num)"
    by (rule encode_eq [OF assms(1)])
  have "hex_repr (2 + 6) (unat num) = hex_repr 2 (unat num div 16 ^ 6) @ hex_repr 6 (unat num)"
    by (rule hex_repr_add)
  moreover obtain a b where "hex_repr 2 (unat num div 16 ^ 6) = [a, b]"
    by (simp add: numeral_2_eq_2)
  ultimately have "hex_repr 8 (unat num) = [a, b] @ hex_repr 6 (unat num)" by simp
  with e have c1: "encode num junk = (hex_repr 8 (unat num))[0 := CHR ''0'', 1 := CHR ''x'']"
    by simp
  from e have c2: "encode num junk = ''0x'' @ hex_repr 6 (unat num mod 16 ^ 6)"
    by (simp only: hex_repr_mod)
  from e have c3: "hex_value (drop 2 (encode num junk)) = unat num mod 16 ^ 6"
    by (simp add: hex_value_hex_repr)
  from assms(2) have "(16::nat) ^ 6 \<le> unat num" by (simp add: word_le_nat_alt)
  moreover have "unat num mod 16 ^ 6 < 16 ^ 6" by simp
  ultimately have "unat num mod 16 ^ 6 < unat num" by linarith
  with c3 have c4: "hex_value (drop 2 (encode num junk)) < unat num" by simp
  have "encode 0x12345678 junk = ''0x'' @ hex_repr 6 (unat (0x12345678 :: uint32_t))"
    by (rule encode_eq [OF assms(1)])
  then have c5: "encode 0x12345678 junk = ''0x345678''"
    by (simp only: hex_repr_12345678) simp
  from c1 c2 c3 c4 c5 show ?thesis by (intro conjI)
qed

text \<open>The statement for C1 at \<open>0x12345678\<close> and a buffer of eleven question marks.\<close>

theorem encode_discards_high_digits_witness:
  "length ''???????????'' = 11 \<and> (0x01000000 :: uint32_t) \<le> 0x12345678
   \<and> encode 0x12345678 ''???????????'' = ''0x345678''
   \<and> hex_value (drop 2 (encode 0x12345678 ''???????????'')) < unat (0x12345678 :: uint32_t)"
proof -
  have h1: "length ''???????????'' = 11" by simp
  have h2: "(0x01000000 :: uint32_t) \<le> 0x12345678" by simp
  from encode_discards_high_digits [OF h1 h2] h1 h2 show ?thesis
    by (intro conjI) (elim conjE, assumption)+
qed

text \<open>
  Claim C2. For a value below \<open>0x01000000\<close> the string is \<open>0x\<close> followed by the
  zero-padded 6-digit hexadecimal representation of the value, and these six digits
  denote the value itself; \<open>0\<close> is rendered as \<open>0x000000\<close> and \<open>0xFF\<close> as \<open>0x0000FF\<close>.
\<close>

theorem encode_below_threshold:
  assumes "length junk = 11" and "num < 0x01000000"
  shows "encode num junk = ''0x'' @ hex_repr 6 (unat num)
       \<and> hex_value (drop 2 (encode num junk)) = unat num
       \<and> encode 0 junk = ''0x000000''
       \<and> encode 0xFF junk = ''0x0000FF''"
proof -
  from assms(2) have "unat num < 16 ^ 6" by (simp add: word_less_nat_alt)
  then have "hex_value (drop 2 (encode num junk)) = unat num"
    by (simp add: encode_eq [OF assms(1)] hex_value_hex_repr)
  moreover have "encode 0 junk = ''0x000000''"
    using encode_eq [OF assms(1), of 0] by (simp add: hex_repr_0)
  moreover have "encode 0xFF junk = ''0x0000FF''"
    using encode_eq [OF assms(1), of "0xFF"] by (simp add: hex_repr_FF)
  ultimately show ?thesis using encode_eq [OF assms(1)] by simp
qed

text \<open>The statement for C2 at \<open>0xABCDEF\<close>.\<close>

theorem encode_below_threshold_witness:
  "length ''???????????'' = 11 \<and> (0xABCDEF :: uint32_t) < 0x01000000
   \<and> encode 0xABCDEF ''???????????'' = ''0x'' @ hex_repr 6 (unat (0xABCDEF :: uint32_t))
   \<and> hex_value (drop 2 (encode 0xABCDEF ''???????????'')) = unat (0xABCDEF :: uint32_t)
   \<and> encode 0 ''???????????'' = ''0x000000''
   \<and> encode 0xFF ''???????????'' = ''0x0000FF''"
proof -
  have h1: "length ''???????????'' = 11" by simp
  have h2: "(0xABCDEF :: uint32_t) < 0x01000000" by simp
  from encode_below_threshold [OF h1 h2] h1 h2 show ?thesis by (intro conjI) (elim conjE, assumption)+
qed

text \<open>
  Claim C3 speaks of a visible result of nine characters. The string that
  \<open>decToHexStr\<close> produces for \<open>0\<close> has eight: the ninth position of the buffer holds
  the terminator, which is not part of the string.
\<close>

theorem encode_visible_length_counterexample:
  "length (encode 0 ''???????????'') = 8 \<and> length (encode 0 ''???????????'') \<noteq> 9"
  by (simp add: encode_eq)

text \<open>
  Claim C3, amended. For every value, \<open>decToHexStr\<close> puts the terminator at position 8
  of the buffer; the string has 8 characters, \<open>0x\<close> followed by exactly six hexadecimal
  digits, and takes 9 positions of the buffer with its terminator.
\<close>

theorem encode_shape:
  assumes "length junk = 11"
  shows "decToHexStr num junk ! 8 = NUL
       \<and> take 9 (decToHexStr num junk) = encode num junk @ [NUL]
       \<and> length (encode num junk) = 8
       \<and> take 2 (encode num junk) = ''0x''
       \<and> length (drop 2 (encode num junk)) = 6
       \<and> list_all is_hex_digit (drop 2 (encode num junk))"
proof -
  have "list_all is_hex_digit (hex_repr 6 (unat num))"
    using hex_repr_digits [of 6 "unat num"] by (auto simp: list_all_iff is_hex_digit_def)
  then show ?thesis
    by (simp add: encode_eq [OF assms] decToHexStr_buffer [OF assms] nth_append)
qed

text \<open>The statement for C3 at \<open>0xCAFE\<close>.\<close>

theorem encode_shape_witness:
  "length ''???????????'' = 11
   \<and> decToHexStr 0xCAFE ''???????????'' ! 8 = NUL
   \<and> length (encode 0xCAFE ''???????????'') = 8
   \<and> take 2 (encode 0xCAFE ''???????????'') = ''0x''
   \<and> list_all is_hex_digit (drop 2 (encode 0xCAFE ''???????????''))"
proof -
  have h1: "length ''???????????'' = 11" by simp
  from encode_shape [OF h1, of "0xCAFE"] h1 show ?thesis
    by (intro conjI) (elim conjE, assumption)+
qed

section \<open>Properties of the attribute\<close>

lemma pack_values:
  "vga_entry_color VGA_COLOR_RED VGA_COLOR_BLACK = 0x04"
  "vga_entry_color VGA_COLOR_WHITE VGA_COLOR_BLACK = 0x0F"
  "vga_entry_color VGA_COLOR_YELLOW VGA_COLOR_BLACK = 0x0E"
  by (simp_all add: vga_entry_color_def VGA_COLOR_RED_def VGA_COLOR_BLACK_def
      VGA_COLOR_WHITE_def VGA_COLOR_YELLOW_def)

lemma vga_entry_bytes:
  "ucast (vga_entry uc color) = uc" "ucast (drop_bit 8 (vga_entry uc color)) = color"
  unfolding vga_entry_def
  by (rule bit_word_eqI; auto simp: bit_simps dest: bit_imp_le_length)+

text \<open>
  Claim C6. For a foreground and a background below 16, the byte that
  \<open>vga_entry_color\<close> returns is the foreground or-ed with the background shifted left by
  four, with nothing lost in the conversion to \<open>uint8_t\<close>; red, white and yellow on black
  give \<open>0x04\<close>, \<open>0x0F\<close> and \<open>0x0E\<close>.
\<close>

theorem vga_entry_color_pack:
  assumes "fg < 16" and "bg < 16"
  shows "unat (vga_entry_color fg bg) = unat fg OR push_bit 4 (unat bg)
       \<and> vga_entry_color fg bg = ucast fg OR push_bit 4 (ucast bg)
       \<and> vga_entry_color VGA_COLOR_RED VGA_COLOR_BLACK = 0x04
       \<and> vga_entry_color VGA_COLOR_WHITE VGA_COLOR_BLACK = 0x0F
       \<and> vga_entry_color VGA_COLOR_YELLOW VGA_COLOR_BLACK = 0x0E"
proof -
  from assms have f: "unat fg < 2 ^ 8" and b: "unat bg < 16"
    by (simp_all add: word_less_nat_alt)
  from b have p: "push_bit 4 (unat bg) < 2 ^ 8" by (simp add: push_bit_eq_mult)
  then have p32: "push_bit 4 (unat bg) < 2 ^ 32" by simp
  have "unat (vga_entry_color fg bg) = take_bit 8 (unat (fg OR push_bit 4 bg))"
    unfolding vga_entry_color_def by (simp add: unsigned_ucast_eq)
  also have "unat (fg OR push_bit 4 bg) = unat fg OR unat (push_bit 4 bg)"
    by (simp add: unsigned_or_eq)
  also have "unat (push_bit 4 bg) = take_bit 32 (push_bit 4 (unat bg))"
    using unsigned_push_bit_eq [of 4 bg, where ?'a = nat] by simp
  also have "\<dots> = push_bit 4 (unat bg)"
    using p32 by (simp only: take_bit_nat_eq_self)
  also have "take_bit 8 (unat fg OR push_bit 4 (unat bg)) =
      take_bit 8 (unat fg) OR take_bit 8 (push_bit 4 (unat bg))"
    by (rule take_bit_or)
  also have "\<dots> = unat fg OR push_bit 4 (unat bg)"
    using f p by (simp only: take_bit_nat_eq_self)
  finally have c1: "unat (vga_entry_color fg bg) = unat fg OR push_bit 4 (unat bg)" .
  have c2: "vga_entry_color fg bg = ucast fg OR push_bit 4 (ucast bg)"
    unfolding vga_entry_color_def by (rule bit_word_eqI) (auto simp: bit_simps)
  from c1 c2 pack_values show ?thesis by (intro conjI)
qed

text \<open>The statement for C6 at yellow on red.\<close>

theorem vga_entry_color_pack_witness:
  "(14 :: VGA_COLOR) < 16 \<and> (4 :: VGA_COLOR) < 16
   \<and> unat (vga_entry_color 14 4) = unat (14 :: VGA_COLOR) OR push_bit 4 (unat (4 :: VGA_COLOR))"
proof -
  have h1: "(14 :: VGA_COLOR) < 16" by simp
  have h2: "(4 :: VGA_COLOR) < 16" by simp
  from vga_entry_color_pack [OF h1 h2] h1 h2 show ?thesis
    by (intro conjI) (elim conjE, assumption)+
qed

section \<open>Properties of the console\<close>

lemma strlen_loop_eq:
  "len \<le> length str \<Longrightarrow>
   strlen_loop str len = len + length (takeWhile (\<lambda>c. c \<noteq> NUL) (drop len str))"
proof (induction str len rule: strlen_loop.induct)
  case (1 str len)
  show ?case
  proof (cases "len < length str")
    case True
    then have d: "drop len str = str ! len # drop (Suc len) str"
      by (simp add: Cons_nth_drop_Suc)
    show ?thesis
    proof (cases "str ! len = NUL")
      case True
      with d show ?thesis by (subst strlen_loop.simps) simp
    next
      case False
      with \<open>len < length str\<close> "1.IH" d show ?thesis
        by (subst strlen_loop.simps) simp
    qed
  next
    case False
    with "1.prems" show ?thesis by (subst strlen_loop.simps) simp
  qed
qed

lemma strlen_c_str: "strlen str = length (c_str str)"
  by (simp add: strlen_def c_str_def strlen_loop_eq)

lemma c_str_take: "c_str str = take (strlen str) str"
  unfolding strlen_c_str c_str_def by (rule takeWhile_eq_take)

lemma strlen_le: "strlen str \<le> length str"
  by (simp add: strlen_c_str c_str_def length_takeWhile_le)

lemma terminalPut_loop_step:
  "terminalPut_loop str color len i t =
     (if i < len then terminalPut_loop str color len (i + 1) (put_char (str ! i) color t) else t)"
  by (subst terminalPut_loop.simps) (simp add: put_char_def)

lemma terminalPut_loop_foldl:
  "len \<le> length str \<Longrightarrow>
   terminalPut_loop str color len i t =
     foldl (\<lambda>t c. put_char c color t) t (drop i (take len str))"
proof (induction str color len i t rule: terminalPut_loop.induct)
  case (1 str color len i t)
  show ?case
  proof (cases "i < len")
    case True
    with "1.prems" have "drop i (take len str) = str ! i # drop (Suc i) (take len str)"
      by (simp add: Cons_nth_drop_Suc [symmetric])
    moreover have "terminalPut_loop str color len (i + 1) (put_char (str ! i) color t) =
        foldl (\<lambda>t c. put_char c color t) (put_char (str ! i) color t)
          (drop (i + 1) (take len str))"
      using "1.IH" True "1.prems" by (auto simp: put_char_def)
    ultimately show ?thesis using True
      by (subst terminalPut_loop_step) simp
  next
    case False
    then show ?thesis by (subst terminalPut_loop_step) simp
  qed
qed

lemma terminalPut_foldl:
  "terminalPut str color t = foldl (\<lambda>t c. put_char c color t) t (c_str str)"
  by (simp add: terminalPut_def terminalPut_loop_foldl strlen_le c_str_take)

lemma c_str_Nil: "c_str [] = []"
  by (simp add: c_str_def)

lemma c_str_Cons: "c_str (c # cs) = (if c = NUL then [] else c # c_str cs)"
  by (simp add: c_str_def)

lemma terminalPut_Nil: "terminalPut [] color t = t"
  by (simp add: terminalPut_foldl c_str_Nil)

lemma terminalPut_Cons:
  "terminalPut (c # cs) color t =
     (if c = NUL then t else terminalPut cs color (put_char c color t))"
  by (simp add: terminalPut_foldl c_str_Cons)

text \<open>\<open>write_hex\<close> writes the string that \<open>encode\<close> names.\<close>

lemma c_str_idem: "c_str (c_str str) = c_str str"
  by (simp add: c_str_def takeWhile_idem)

lemma write_hex_encode: "write_hex hex junk t = write_str (encode hex junk) t"
  by (simp add: write_hex_def write_str_def encode_def terminalPut_foldl c_str_idem)

text \<open>
  Claim C4. \<open>terminalPut\<close> handles the characters of the string in order, up to the
  terminator. A newline adds one to the row and sets the column to zero, and no cell is
  written; any other character is written with the attribute to the cell at the current
  row and column, and then the column is advanced by one. Writing \<open>A\<close>, newline, \<open>B\<close>
  from the cursor \<open>(0, 0)\<close> puts \<open>A\<close> at \<open>(0, 0)\<close> and \<open>B\<close> at \<open>(1, 0)\<close> and leaves the
  cursor at \<open>(1, 1)\<close>.
\<close>

theorem terminalPut_per_character:
  "terminalPut [] color t = t
   \<and> terminalPut (c # cs) color t =
      (if c = NUL then t
       else if c = CHR ''\<newline>''
       then terminalPut cs color (t\<lparr>terminal_row := terminal_row t + 1, terminal_col := 0\<rparr>)
       else terminalPut cs color
              (t\<lparr>mem := (mem t)
                   (elem_addr (terminal_buffer t) (terminal_col t + terminal_row t * VGA_WIDTH) :=
                      vga_entry (of_char c) color),
                 terminal_col := terminal_col t + 1\<rparr>))
   \<and> terminalPut ''A\<newline>B'' color (t\<lparr>terminal_row := 0, terminal_col := 0\<rparr>) =
      t\<lparr>mem := (mem t)
            (elem_addr (terminal_buffer t) (0 + 0 * VGA_WIDTH) := vga_entry (of_char (CHR ''A'')) color,
             elem_addr (terminal_buffer t) (0 + 1 * VGA_WIDTH) := vga_entry (of_char (CHR ''B'')) color),
        terminal_row := 1, terminal_col := 1\<rparr>"
proof (intro conjI)
  show "terminalPut [] color t = t" by (rule terminalPut_Nil)
next
  show "terminalPut (c # cs) color t =
      (if c = NUL then t
       else if c = CHR ''\<newline>''
       then terminalPut cs color (t\<lparr>terminal_row := terminal_row t + 1, terminal_col := 0\<rparr>)
       else terminalPut cs color
              (t\<lparr>mem := (mem t)
                   (elem_addr (terminal_buffer t) (terminal_col t + terminal_row t * VGA_WIDTH) :=
                      vga_entry (of_char c) color),
                 terminal_col := terminal_col t + 1\<rparr>))"
    by (simp add: terminalPut_Cons put_char_def)
next
  show "terminalPut ''A\<newline>B'' color (t\<lparr>terminal_row := 0, terminal_col := 0\<rparr>) =
      t\<lparr>mem := (mem t)
            (elem_addr (terminal_buffer t) (0 + 0 * VGA_WIDTH) := vga_entry (of_char (CHR ''A'')) color,
             elem_addr (terminal_buffer t) (0 + 1 * VGA_WIDTH) := vga_entry (of_char (CHR ''B'')) color),
        terminal_row := 1, terminal_col := 1\<rparr>"
    by (simp add: terminalPut_Cons terminalPut_Nil put_char_def NUL_def)
qed

text \<open>
  Claim C9. Writing the empty string changes nothing, through \<open>terminalPut\<close> with any
  attribute and through each of the three entry points: the result is the starting
  state, with its cursor and all of its memory.
\<close>

theorem empty_string_noop:
  "terminalPut [] color t = t
   \<and> terminalPut (NUL # rest) color t = t
   \<and> write_str [] t = t \<and> kerr [] t = t \<and> kwarn [] t = t"
  by (simp add: write_str_def kerr_def kwarn_def terminalPut_Nil terminalPut_Cons)

lemma foldl_put_char_no_newline:
  "CHR ''\<newline>'' \<notin> set cs \<Longrightarrow>
   terminal_col (foldl (\<lambda>t c. put_char c color t) t cs) = terminal_col t + of_nat (length cs)
   \<and> terminal_row (foldl (\<lambda>t c. put_char c color t) t cs) = terminal_row t"
  by (induction cs arbitrary: t) (auto simp: put_char_def)

lemma foldl_put_char_row:
  "terminal_row (foldl (\<lambda>t c. put_char c color t) t cs) =
     terminal_row t + of_nat (count_list cs (CHR ''\<newline>''))"
  by (induction cs arbitrary: t) (auto simp: put_char_def)

text \<open>
  Claim C7. The cursor is neither wrapped nor clamped. After a string without a newline
  the column is the old column plus the length of the string, and the row is the old
  one; after any string the row is the old row plus the number of its newlines. Both
  sums are those of \<open>size_t\<close>, and they are the sums of the natural numbers as long as
  these fit in a \<open>size_t\<close>: neither 80 nor 25 is a limit.
\<close>

theorem cursor_never_wraps:
  "(CHR ''\<newline>'' \<notin> set (c_str str) \<longrightarrow>
      terminal_col (terminalPut str color t) = terminal_col t + of_nat (length (c_str str))
      \<and> terminal_row (terminalPut str color t) = terminal_row t)
   \<and> (CHR ''\<newline>'' \<notin> set (c_str str)
        \<and> unat (terminal_col t) + length (c_str str) < 2 ^ 32 \<longrightarrow>
      unat (terminal_col (terminalPut str color t)) = unat (terminal_col t) + length (c_str str))
   \<and> terminal_row (terminalPut str color t) =
        terminal_row t + of_nat (count_list (c_str str) (CHR ''\<newline>''))
   \<and> (unat (terminal_row t) + count_list (c_str str) (CHR ''\<newline>'') < 2 ^ 32 \<longrightarrow>
      unat (terminal_row (terminalPut str color t)) =
        unat (terminal_row t) + count_list (c_str str) (CHR ''\<newline>''))"
proof -
  have no_wrap: "unat (w + of_nat n) = unat w + n" if "unat w + n < 2 ^ 32" for w :: size_t and n
  proof -
    from that have "n < 2 ^ 32" by simp
    then have "unat (of_nat n :: size_t) = n" by (simp add: unat_of_nat)
    with that show ?thesis by (simp add: unat_word_ariths)
  qed
  show ?thesis
    unfolding terminalPut_foldl
    using foldl_put_char_no_newline [of "c_str str" color t]
      foldl_put_char_row [of color t "c_str str"]
    by (auto simp: no_wrap)
qed

lemma count_list_replicate_same: "count_list (replicate n x) x = n"
  by (induction n) simp_all

text \<open>
  The statement for C7 from the cursor \<open>(0, 0)\<close>: a hundred characters leave the
  column at 100, beyond the width, and thirty newlines leave the row at 30, beyond the
  height.
\<close>

theorem cursor_never_wraps_witness:
  "CHR ''\<newline>'' \<notin> set (c_str (replicate 100 (CHR ''a'')))
   \<and> unat (terminal_col (boot (\<lambda>a. 0))) + length (c_str (replicate 100 (CHR ''a''))) < 2 ^ 32
   \<and> unat (terminal_col (terminalPut (replicate 100 (CHR ''a'')) 0x0F (boot (\<lambda>a. 0)))) = 100
   \<and> unat VGA_WIDTH < 100
   \<and> unat (terminal_row (boot (\<lambda>a. 0)))
        + count_list (c_str (replicate 30 (CHR ''\<newline>''))) (CHR ''\<newline>'') < 2 ^ 32
   \<and> unat (terminal_row (terminalPut (replicate 30 (CHR ''\<newline>'')) 0x0F (boot (\<lambda>a. 0)))) = 30
   \<and> unat VGA_HEIGHT < 30"
proof -
  have s1: "c_str (replicate 100 (CHR ''a'')) = replicate 100 (CHR ''a'')"
    by (simp add: c_str_def NUL_def)
  have s2: "c_str (replicate 30 (CHR ''\<newline>'')) = replicate 30 (CHR ''\<newline>'')"
    by (simp add: c_str_def NUL_def)
  have n: "count_list (replicate 30 (CHR ''\<newline>'')) (CHR ''\<newline>'') = 30"
    by (rule count_list_replicate_same)
  have h1: "CHR ''\<newline>'' \<notin> set (c_str (replicate 100 (CHR ''a'')))"
    by (simp add: s1)
  have h2: "unat (terminal_col (boot (\<lambda>a. 0))) + length (c_str (replicate 100 (CHR ''a''))) < 2 ^ 32"
    by (simp add: s1 boot_def)
  have h3: "unat (terminal_row (boot (\<lambda>a. 0)))
        + count_list (c_str (replicate 30 (CHR ''\<newline>''))) (CHR ''\<newline>'') < 2 ^ 32"
    by (simp add: s2 n boot_def)
  from cursor_never_wraps [of "replicate 100 (CHR ''a'')" "0x0F" "boot (\<lambda>a. 0)"] h1 h2
  have c: "unat (terminal_col (terminalPut (replicate 100 (CHR ''a'')) 0x0F (boot (\<lambda>a. 0)))) = 100"
    by (simp add: s1 boot_def)
  from cursor_never_wraps [of "replicate 30 (CHR ''\<newline>'')" "0x0F" "boot (\<lambda>a. 0)"] h3
  have r: "unat (terminal_row (terminalPut (replicate 30 (CHR ''\<newline>'')) 0x0F (boot (\<lambda>a. 0)))) = 30"
    by (simp add: s2 n boot_def)
  from h1 h2 h3 c r show ?thesis by (simp add: VGA_WIDTH_def VGA_HEIGHT_def)
qed

lemma foldl_put_char_writes:
  "\<exists>ws r c. \<forall>color.
     foldl (\<lambda>t ch. put_char ch color t) t cs =
       t\<lparr>mem := foldl (\<lambda>m (a, uc). m(a := vga_entry uc color)) (mem t) ws,
         terminal_row := r, terminal_col := c\<rparr>"
proof (induction cs rule: rev_induct)
  case Nil
  have "\<forall>color. foldl (\<lambda>t ch. put_char ch color t) t [] =
       t\<lparr>mem := foldl (\<lambda>m (a, uc). m(a := vga_entry uc color)) (mem t) [],
         terminal_row := terminal_row t, terminal_col := terminal_col t\<rparr>"
    by simp
  then show ?case by blast
next
  case (snoc ch cs)
  then obtain ws r c where IH: "\<And>color. foldl (\<lambda>t ch. put_char ch color t) t cs =
       t\<lparr>mem := foldl (\<lambda>m (a, uc). m(a := vga_entry uc color)) (mem t) ws,
         terminal_row := r, terminal_col := c\<rparr>"
    by blast
  show ?case
  proof (cases "ch = CHR ''\<newline>''")
    case True
    have "\<forall>color. foldl (\<lambda>t ch. put_char ch color t) t (cs @ [ch]) =
       t\<lparr>mem := foldl (\<lambda>m (a, uc). m(a := vga_entry uc color)) (mem t) ws,
         terminal_row := r + 1, terminal_col := 0\<rparr>"
      using True by (simp add: IH, simp add: put_char_def)
    then show ?thesis by blast
  next
    case False
    have "\<forall>color. foldl (\<lambda>t ch. put_char ch color t) t (cs @ [ch]) =
       t\<lparr>mem := foldl (\<lambda>m (a, uc). m(a := vga_entry uc color)) (mem t)
                  (ws @ [(elem_addr (terminal_buffer t) (c + r * VGA_WIDTH), of_char ch)]),
         terminal_row := r, terminal_col := c + 1\<rparr>"
      using False by (simp add: IH, simp add: put_char_def)
    then show ?thesis by blast
  qed
qed

text \<open>
  Claim C8. For every string and every starting state, \<open>write\<close>, \<open>kerr\<close> and \<open>kwarn\<close>
  make the same sequence of writes, to the same addresses and with the same
  characters, and end with the same cursor; the units written differ in the attribute
  byte only, which is that of white, red and yellow on black. Each of the three is a
  total function that returns the new state and nothing else.
\<close>

theorem entry_points_same_iteration:
  "(\<exists>ws r c.
     write_str str t =
       t\<lparr>mem := foldl (\<lambda>m (a, uc). m(a := vga_entry uc
               (vga_entry_color VGA_COLOR_WHITE VGA_COLOR_BLACK))) (mem t) ws,
         terminal_row := r, terminal_col := c\<rparr>
     \<and> kerr str t =
       t\<lparr>mem := foldl (\<lambda>m (a, uc). m(a := vga_entry uc
               (vga_entry_color VGA_COLOR_RED VGA_COLOR_BLACK))) (mem t) ws,
         terminal_row := r, terminal_col := c\<rparr>
     \<and> kwarn str t =
       t\<lparr>mem := foldl (\<lambda>m (a, uc). m(a := vga_entry uc
               (vga_entry_color VGA_COLOR_YELLOW VGA_COLOR_BLACK))) (mem t) ws,
         terminal_row := r, terminal_col := c\<rparr>)
   \<and> ucast (vga_entry uc color) = uc
   \<and> ucast (drop_bit 8 (vga_entry uc color)) = color
   \<and> vga_entry_color VGA_COLOR_WHITE VGA_COLOR_BLACK = 0x0F
   \<and> vga_entry_color VGA_COLOR_RED VGA_COLOR_BLACK = 0x04
   \<and> vga_entry_color VGA_COLOR_YELLOW VGA_COLOR_BLACK = 0x0E"
proof -
  obtain ws r c where "\<And>color. foldl (\<lambda>t ch. put_char ch color t) t (c_str str) =
       t\<lparr>mem := foldl (\<lambda>m (a, uc). m(a := vga_entry uc color)) (mem t) ws,
         terminal_row := r, terminal_col := c\<rparr>"
    using foldl_put_char_writes [of t "c_str str"] by blast
  then have "\<exists>ws r c.
     write_str str t =
       t\<lparr>mem := foldl (\<lambda>m (a, uc). m(a := vga_entry uc
               (vga_entry_color VGA_COLOR_WHITE VGA_COLOR_BLACK))) (mem t) ws,
         terminal_row := r, terminal_col := c\<rparr>
     \<and> kerr str t =
       t\<lparr>mem := foldl (\<lambda>m (a, uc). m(a := vga_entry uc
               (vga_entry_color VGA_COLOR_RED VGA_COLOR_BLACK))) (mem t) ws,
         terminal_row := r, terminal_col := c\<rparr>
     \<and> kwarn str t =
       t\<lparr>mem := foldl (\<lambda>m (a, uc). m(a := vga_entry uc
               (vga_entry_color VGA_COLOR_YELLOW VGA_COLOR_BLACK))) (mem t) ws,
         terminal_row := r, terminal_col := c\<rparr>"
    unfolding write_str_def kerr_def kwarn_def terminalPut_foldl by blast
  with vga_entry_bytes [of uc color] pack_values show ?thesis by (intro conjI)
qed

section \<open>Properties of \<open>initTerminal\<close>\<close>

lemma init_cols_step:
  "init_cols y x t =
     (if x < VGA_WIDTH
      then init_cols y (x + 1)
             (t\<lparr>mem := (mem t)(elem_addr (terminal_buffer t) (y * VGA_WIDTH + x) := blank)\<rparr>)
      else t)"
  by (subst init_cols.simps) (simp add: blank_def)

lemma init_cols_frame:
  "terminal_buffer (init_cols y x t) = terminal_buffer t
   \<and> terminal_row (init_cols y x t) = terminal_row t
   \<and> terminal_col (init_cols y x t) = terminal_col t"
proof (induction y x t rule: init_cols.induct)
  case (1 y x t)
  then show ?case by (subst (1 2 3) init_cols_step) (simp add: blank_def)
qed

lemma init_cols_keeps_blank:
  "mem t a = blank \<Longrightarrow> mem (init_cols y x t) a = blank"
proof (induction y x t rule: init_cols.induct)
  case (1 y x t)
  show ?case
  proof (cases "x < VGA_WIDTH")
    case True
    let ?t = "t\<lparr>mem := (mem t)(elem_addr (terminal_buffer t) (y * VGA_WIDTH + x) := blank)\<rparr>"
    have "mem ?t a = blank" using "1.prems" by simp
    then have "mem (init_cols y (x + 1) ?t) a = blank"
      using "1.IH" [OF True] by (simp add: blank_def)
    with True show ?thesis by (subst init_cols_step) simp
  next
    case False
    with "1.prems" show ?thesis by (subst init_cols_step) simp
  qed
qed

lemma init_cols_written:
  "x \<le> x' \<Longrightarrow> x' < VGA_WIDTH \<Longrightarrow>
   mem (init_cols y x t) (elem_addr (terminal_buffer t) (y * VGA_WIDTH + x')) = blank"
proof (induction y x t rule: init_cols.induct)
  case (1 y x t)
  let ?t = "t\<lparr>mem := (mem t)(elem_addr (terminal_buffer t) (y * VGA_WIDTH + x) := blank)\<rparr>"
  from "1.prems" have lt: "x < VGA_WIDTH" by simp
  then have unfold: "init_cols y x t = init_cols y (x + 1) ?t"
    by (subst init_cols_step) simp
  show ?case
  proof (cases "x' = x")
    case True
    have "mem ?t (elem_addr (terminal_buffer t) (y * VGA_WIDTH + x)) = blank" by simp
    then show ?thesis unfolding unfold True by (rule init_cols_keeps_blank)
  next
    case False
    with "1.prems" have "x < x'" by simp
    then have "x + 1 \<le> x'" by (rule inc_le)
    from "1.IH" [OF lt, simplified blank_def [symmetric], OF this "1.prems"(2)]
    show ?thesis unfolding unfold by simp
  qed
qed

lemma init_rows_step:
  "init_rows y t = (if y < VGA_HEIGHT then init_rows (y + 1) (init_cols y 0 t) else t)"
  by (subst init_rows.simps) simp

lemma init_rows_frame:
  "terminal_buffer (init_rows y t) = terminal_buffer t
   \<and> terminal_row (init_rows y t) = terminal_row t
   \<and> terminal_col (init_rows y t) = terminal_col t"
proof (induction y t rule: init_rows.induct)
  case (1 y t)
  then show ?case by (subst (1 2 3) init_rows_step) (simp add: init_cols_frame)
qed

lemma init_rows_keeps_blank:
  "mem t a = blank \<Longrightarrow> mem (init_rows y t) a = blank"
proof (induction y t rule: init_rows.induct)
  case (1 y t)
  show ?case
  proof (cases "y < VGA_HEIGHT")
    case True
    have "mem (init_cols y 0 t) a = blank" using "1.prems" by (rule init_cols_keeps_blank)
    then have "mem (init_rows (y + 1) (init_cols y 0 t)) a = blank" by (rule "1.IH" [OF True])
    with True show ?thesis by (subst init_rows_step) simp
  next
    case False
    with "1.prems" show ?thesis by (subst init_rows_step) simp
  qed
qed

lemma init_rows_written:
  "y \<le> y' \<Longrightarrow> y' < VGA_HEIGHT \<Longrightarrow> x' < VGA_WIDTH \<Longrightarrow>
   mem (init_rows y t) (elem_addr (terminal_buffer t) (y' * VGA_WIDTH + x')) = blank"
proof (induction y t rule: init_rows.induct)
  case (1 y t)
  from "1.prems" have lt: "y < VGA_HEIGHT" by simp
  then have unfold: "init_rows y t = init_rows (y + 1) (init_cols y 0 t)"
    by (subst init_rows_step) simp
  show ?case
  proof (cases "y' = y")
    case True
    have "mem (init_cols y 0 t) (elem_addr (terminal_buffer t) (y * VGA_WIDTH + x')) = blank"
      using "1.prems"(3) by (intro init_cols_written) simp_all
    then show ?thesis unfolding unfold True by (rule init_rows_keeps_blank)
  next
    case False
    with "1.prems" have "y < y'" by simp
    then have "y + 1 \<le> y'" by (rule inc_le)
    from "1.IH" [OF lt this "1.prems"(2,3)]
    show ?thesis unfolding unfold by (simp add: init_cols_frame)
  qed
qed

lemma cell_index_split:
  fixes i :: size_t
  assumes "i < 2000"
  shows "i div 80 < 25 \<and> i mod 80 < 80 \<and> i = (i div 80) * 80 + i mod 80"
proof -
  from assms have "unat i < 2000" by (simp add: word_less_nat_alt)
  then have "unat i div 80 < 25" by simp
  then have "i div 80 < 25" by (simp add: word_less_nat_alt unat_div)
  moreover have "i mod 80 < 80" by (simp add: word_less_nat_alt unat_mod)
  moreover have "i = (i div 80) * 80 + i mod 80" by (simp add: word_mod_div_equality)
  ultimately show ?thesis by simp
qed

lemma blank_value: "blank = 0x0F20"
  by (simp add: blank_def vga_entry_def vga_entry_color_def VGA_COLOR_WHITE_def VGA_COLOR_BLACK_def)

lemma initTerminal_cell:
  fixes i :: size_t
  assumes "i < 2000"
  shows "mem (initTerminal t) (elem_addr 0xB8000 i) = blank"
proof -
  let ?t = "t\<lparr>terminal_buffer := 0xB8000\<rparr>"
  from cell_index_split [OF assms]
  have y: "i div 80 < VGA_HEIGHT" and x: "i mod 80 < VGA_WIDTH"
    and i: "i = (i div 80) * VGA_WIDTH + i mod 80"
    by (simp_all add: VGA_HEIGHT_def VGA_WIDTH_def)
  have "mem (init_rows 0 ?t) (elem_addr (terminal_buffer ?t) ((i div 80) * VGA_WIDTH + i mod 80)) = blank"
    using y x by (intro init_rows_written) simp_all
  with i show ?thesis by (simp add: initTerminal_def)
qed

text \<open>
  Claim C5. After \<open>initTerminal\<close> the pointer is \<open>0xB8000\<close> and each of the 2000 units
  \<open>terminal_buffer[i]\<close>, \<open>i < 2000\<close>, that is each cell of a row below 25 and a column
  below 80, holds \<open>0x0F20\<close>: the space character in the low byte and the attribute of
  white on black, \<open>0x0F\<close>, in the high byte.
\<close>

theorem initTerminal_clears:
  "(\<forall>i<2000. mem (initTerminal t) (elem_addr 0xB8000 i) = 0x0F20)
   \<and> (\<forall>y<VGA_HEIGHT. \<forall>x<VGA_WIDTH.
         mem (initTerminal t) (elem_addr 0xB8000 (y * VGA_WIDTH + x)) = 0x0F20)
   \<and> terminal_buffer (initTerminal t) = 0xB8000
   \<and> vga_entry (of_char (CHR '' '')) (vga_entry_color VGA_COLOR_WHITE VGA_COLOR_BLACK) = 0x0F20
   \<and> ucast (0x0F20 :: uint16_t) = (of_char (CHR '' '') :: uint8_t)
   \<and> ucast (drop_bit 8 (0x0F20 :: uint16_t)) = vga_entry_color VGA_COLOR_WHITE VGA_COLOR_BLACK
   \<and> vga_entry_color VGA_COLOR_WHITE VGA_COLOR_BLACK = 0x0F"
proof (intro conjI allI impI)
  fix i :: size_t assume "i < 2000"
  then show "mem (initTerminal t) (elem_addr 0xB8000 i) = 0x0F20"
    by (simp add: initTerminal_cell flip: blank_value)
next
  fix y x :: size_t assume "y < VGA_HEIGHT" and "x < VGA_WIDTH"
  then have "mem (init_rows 0 (t\<lparr>terminal_buffer := 0xB8000\<rparr>))
      (elem_addr (terminal_buffer (t\<lparr>terminal_buffer := 0xB8000\<rparr>)) (y * VGA_WIDTH + x)) = blank"
    by (intro init_rows_written) simp_all
  then show "mem (initTerminal t) (elem_addr 0xB8000 (y * VGA_WIDTH + x)) = 0x0F20"
    by (simp add: initTerminal_def blank_value)
next
  show "terminal_buffer (initTerminal t) = 0xB8000"
    by (simp add: initTerminal_def init_rows_frame)
next
  show "vga_entry (of_char (CHR '' '')) (vga_entry_color VGA_COLOR_WHITE VGA_COLOR_BLACK) = 0x0F20"
    using blank_value by (simp add: blank_def)
next
  show "ucast (0x0F20 :: uint16_t) = (of_char (CHR '' '') :: uint8_t)" by simp
next
  show "ucast (drop_bit 8 (0x0F20 :: uint16_t)) = vga_entry_color VGA_COLOR_WHITE VGA_COLOR_BLACK"
    by (simp add: pack_values)
next
  show "vga_entry_color VGA_COLOR_WHITE VGA_COLOR_BLACK = 0x0F" by (simp add: pack_values)
qed

text \<open>The statement for C5 at the last cell, from the state at boot with zeroed memory.\<close>

theorem initTerminal_clears_witness:
  "(1999 :: size_t) < 2000
   \<and> mem (initTerminal (boot (\<lambda>a. 0))) (elem_addr 0xB8000 1999) = 0x0F20
   \<and> (24 :: size_t) < VGA_HEIGHT \<and> (79 :: size_t) < VGA_WIDTH
   \<and> mem (initTerminal (boot (\<lambda>a. 0))) (elem_addr 0xB8000 (24 * VGA_WIDTH + 79)) = 0x0F20"
proof -
  note c = initTerminal_clears [of "boot (\<lambda>a. 0)"]
  have h1: "(1999 :: size_t) < 2000" by simp
  have h2: "(24 :: size_t) < VGA_HEIGHT" by (simp add: VGA_HEIGHT_def)
  have h3: "(79 :: size_t) < VGA_WIDTH" by (simp add: VGA_WIDTH_def)
  from c have "mem (initTerminal (boot (\<lambda>a. 0))) (elem_addr 0xB8000 1999) = 0x0F20"
    using h1 by blast
  moreover from c
  have "mem (initTerminal (boot (\<lambda>a. 0))) (elem_addr 0xB8000 (24 * VGA_WIDTH + 79)) = 0x0F20"
    using h2 h3 by blast
  ultimately show ?thesis using h1 h2 h3 by (intro conjI)
qed

lemma initTerminal_frame:
  "terminal_row (initTerminal t) = terminal_row t \<and> terminal_col (initTerminal t) = terminal_col t"
  by (simp add: initTerminal_def init_rows_frame)

text \<open>
  Claim C10. \<open>initTerminal\<close> leaves the row and the column as they were; they are zero
  at boot by their static initialisation. So after a write the cursor survives a second
  \<open>initTerminal\<close>: with \<open>AB\<close> written and the screen cleared again, \<open>C\<close> goes to the
  third cell, and the first cell stays blank.
\<close>

theorem initTerminal_keeps_cursor:
  "terminal_row (initTerminal t) = terminal_row t
   \<and> terminal_col (initTerminal t) = terminal_col t
   \<and> terminal_row (boot m) = 0 \<and> terminal_col (boot m) = 0
   \<and> terminal_row (initTerminal (terminalPut str color t)) = terminal_row (terminalPut str color t)
   \<and> terminal_col (initTerminal (terminalPut str color t)) = terminal_col (terminalPut str color t)
   \<and> terminal_col (initTerminal (write_str ''AB'' (initTerminal (boot m)))) = 2
   \<and> mem (write_str ''C'' (initTerminal (write_str ''AB'' (initTerminal (boot m)))))
        (elem_addr 0xB8000 2) = vga_entry (of_char (CHR ''C'')) 0x0F
   \<and> mem (write_str ''C'' (initTerminal (write_str ''AB'' (initTerminal (boot m)))))
        (elem_addr 0xB8000 0) = 0x0F20"
proof -
  define s where "s = initTerminal (write_str ''AB'' (initTerminal (boot m)))"
  have col: "terminal_col s = 2" and row: "terminal_row s = 0"
    unfolding s_def
    by (simp_all add: initTerminal_frame write_str_def terminalPut_Cons terminalPut_Nil
        put_char_def NUL_def boot_def)
  have buf: "terminal_buffer s = 0xB8000"
    unfolding s_def by (simp add: initTerminal_def init_rows_frame)
  have "write_str ''C'' s = put_char (CHR ''C'') 0x0F s"
    by (simp add: write_str_def terminalPut_Cons terminalPut_Nil NUL_def pack_values)
  then have w: "mem (write_str ''C'' s) =
      (mem s)(elem_addr 0xB8000 (2 + 0 * VGA_WIDTH) := vga_entry (of_char (CHR ''C'')) 0x0F)"
    by (simp add: put_char_def col row buf)
  have c2: "mem (write_str ''C'' s) (elem_addr 0xB8000 2) = vga_entry (of_char (CHR ''C'')) 0x0F"
    by (simp add: w)
  have "mem s (elem_addr 0xB8000 0) = blank"
    unfolding s_def by (rule initTerminal_cell) simp
  then have c0: "mem (write_str ''C'' s) (elem_addr 0xB8000 0) = 0x0F20"
    by (simp add: w elem_addr_def blank_value)
  show ?thesis
    using col c2 c0 unfolding s_def by (simp add: initTerminal_frame boot_def)
qed

end
